theory Spec2Isabelle
  imports Main
begin

section \<open>Data model of the credential leasing bot\<close>

text \<open>
  The repository holds two versions of one program: \<^verbatim>\<open>bot.py\<close> keeps its records in
  SQLite tables, \<^verbatim>\<open>bot_v2.0.py\<close> keeps them in Firestore collections. Both store the same
  two kinds of record. A timestamp (\<^verbatim>\<open>datetime\<close>, resolution one microsecond) is an integer
  number of microseconds; the bound of \<^verbatim>\<open>datetime\<close> at the year 9999 is outside the model.
  The clock \<^verbatim>\<open>datetime.now(timezone.utc)\<close> is a parameter \<open>now\<close> of every function that
  reads it. The store is taken to answer every request: the \<^verbatim>\<open>except Exception\<close> branches
  of \<^verbatim>\<open>bot_v2.0.py\<close> are modelled where Firestore raises by its semantics (an update
  of a document that does not exist), not for a lost connection.
\<close>

datatype cred_status = Available | InUse

record credential =
  username :: string
  password :: string
  status :: cred_status
  credential_expiry_date :: int

record user =
  user_id :: int
  is_bot_use :: bool
  plan_expiry_date :: "int option"
  assigned_username :: "string option"
  assigned_password :: "string option"

text \<open>
  The users are keyed by \<^verbatim>\<open>user_id\<close> (primary key, document id). The credentials are
  the rows of the table in the order in which a query scans them.
\<close>

record db =
  users :: "int \<Rightarrow> user option"
  credentials :: "credential list"

definition empty_db :: db where
  "empty_db = \<lparr>users = Map.empty, credentials = []\<rparr>"

text \<open>\<^verbatim>\<open>timedelta(days=d)\<close> in microseconds.\<close>

definition timedelta_days :: "int \<Rightarrow> int" where
  "timedelta_days d = d * 86400000000"

section \<open>Database functions\<close>

definition get_user :: "db \<Rightarrow> int \<Rightarrow> user option" where
  "get_user s uid = users s uid"

definition get_credential :: "db \<Rightarrow> string \<Rightarrow> credential option" where
  "get_credential s n = find (\<lambda>c. username c = n) (credentials s)"

text \<open>
  \<^verbatim>\<open>get_available_credential\<close>: \<^verbatim>\<open>WHERE status = 'available' AND credential_expiry_date >= ?
  ORDER BY credential_expiry_date ASC LIMIT 1\<close> (the same query in Firestore). Rows of equal
  expiry keep their scan order.
\<close>

definition get_available_credential :: "int \<Rightarrow> db \<Rightarrow> int \<Rightarrow> credential option" where
  "get_available_credential now s required_days =
     (let required_expiry_date = now + timedelta_days required_days in
      case sort_key credential_expiry_date
             (filter (\<lambda>c. status c = Available \<and> required_expiry_date \<le> credential_expiry_date c)
                (credentials s)) of
        [] \<Rightarrow> None
      | c # _ \<Rightarrow> Some c)"

text \<open>
  \<^verbatim>\<open>add_or_get_user\<close>. \<^verbatim>\<open>bot.py\<close> inserts a row that holds the key only, so the other
  columns take their defaults (\<^verbatim>\<open>is_bot_use\<close> 0, the rest \<^verbatim>\<open>NULL\<close>); \<^verbatim>\<open>bot_v2.0.py\<close> writes
  the same five fields out.
\<close>

definition new_user :: "int \<Rightarrow> user" where
  "new_user uid = \<lparr>user_id = uid, is_bot_use = False, plan_expiry_date = None,
     assigned_username = None, assigned_password = None\<rparr>"

definition add_or_get_user :: "db \<Rightarrow> int \<Rightarrow> user \<times> db" where
  "add_or_get_user s uid =
     (case get_user s uid of
        None \<Rightarrow> (new_user uid, s\<lparr>users := (users s)(uid \<mapsto> new_user uid)\<rparr>)
      | Some u \<Rightarrow> (u, s))"

text \<open>
  \<^verbatim>\<open>add_credential_to_pool\<close>: the \<^verbatim>\<open>UNIQUE\<close> constraint on \<^verbatim>\<open>username\<close> (\<^verbatim>\<open>bot.py\<close>) or
  the lookup by \<^verbatim>\<open>get_credential\<close> (\<^verbatim>\<open>bot_v2.0.py\<close>) rejects a second credential of the
  same name.
\<close>

definition add_credential_to_pool :: "int \<Rightarrow> string \<Rightarrow> string \<Rightarrow> int \<Rightarrow> db \<Rightarrow> bool \<times> db" where
  "add_credential_to_pool now n pw days s =
     (case get_credential s n of
        Some _ \<Rightarrow> (False, s)
      | None \<Rightarrow>
          (True, s\<lparr>credentials := credentials s @
             [\<lparr>username = n, password = pw, status = Available,
               credential_expiry_date = now + timedelta_days days\<rparr>]\<rparr>))"

text \<open>
  \<^verbatim>\<open>edit_credential_in_pool\<close>: \<^verbatim>\<open>UPDATE credentials SET password = ?,
  credential_expiry_date = ? WHERE username = ?\<close>, after a lookup of the name.
\<close>

definition edit_credential_in_pool :: "int \<Rightarrow> string \<Rightarrow> string \<Rightarrow> int \<Rightarrow> db \<Rightarrow> bool \<times> db" where
  "edit_credential_in_pool now n new_password new_days s =
     (let new_expiry_date = now + timedelta_days new_days in
      case get_credential s n of
        None \<Rightarrow> (False, s)
      | Some _ \<Rightarrow>
          (True, s\<lparr>credentials :=
             map (\<lambda>c. if username c = n
                       then c\<lparr>password := new_password, credential_expiry_date := new_expiry_date\<rparr>
                       else c)
               (credentials s)\<rparr>))"

text \<open>
  An update of the user's row: \<^verbatim>\<open>UPDATE users SET ... WHERE user_id = ?\<close> changes no row
  when the user is missing; Firestore's \<^verbatim>\<open>update\<close> raises there and the caller's
  \<^verbatim>\<open>except\<close> logs it, so no document changes either.
\<close>

definition update_user :: "int \<Rightarrow> (user \<Rightarrow> user) \<Rightarrow> db \<Rightarrow> db" where
  "update_user uid f s =
     (case users s uid of
        None \<Rightarrow> s
      | Some u \<Rightarrow> s\<lparr>users := (users s)(uid \<mapsto> f u)\<rparr>)"

definition update_credential_status :: "string \<Rightarrow> cred_status \<Rightarrow> db \<Rightarrow> db" where
  "update_credential_status n st s =
     s\<lparr>credentials := map (\<lambda>c. if username c = n then c\<lparr>status := st\<rparr> else c) (credentials s)\<rparr>"

text \<open>
  \<^verbatim>\<open>assign_credential_to_user\<close> of \<^verbatim>\<open>bot.py\<close>: the update of the user, then the update of
  the status, whether or not the user exists.
\<close>

definition assign_credential_to_user :: "int \<Rightarrow> credential \<Rightarrow> db \<Rightarrow> db" where
  "assign_credential_to_user uid cred s =
     update_credential_status (username cred) InUse
       (update_user uid
          (\<lambda>u. u\<lparr>assigned_username := Some (username cred),
                  assigned_password := Some (password cred)\<rparr>) s)"

text \<open>
  \<^verbatim>\<open>assign_credential_to_user\<close> of \<^verbatim>\<open>bot_v2.0.py\<close>: both updates are in one \<^verbatim>\<open>try\<close>, so
  when the user's document is missing the first one raises and the status is not updated.
\<close>

definition assign_credential_to_user_v2 :: "int \<Rightarrow> credential \<Rightarrow> db \<Rightarrow> db" where
  "assign_credential_to_user_v2 uid cred s =
     (case users s uid of
        None \<Rightarrow> s
      | Some _ \<Rightarrow> assign_credential_to_user uid cred s)"

definition grant_user_access :: "int \<Rightarrow> int \<Rightarrow> int \<Rightarrow> db \<Rightarrow> db" where
  "grant_user_access now uid days s =
     (let expiry_date = now + timedelta_days days in
      update_user uid (\<lambda>u. u\<lparr>is_bot_use := True, plan_expiry_date := Some expiry_date\<rparr>) s)"

definition revoke_user_access :: "int \<Rightarrow> db \<Rightarrow> db" where
  "revoke_user_access uid s =
     update_user uid (\<lambda>u. u\<lparr>is_bot_use := False, plan_expiry_date := None\<rparr>) s"

text \<open>
  Python's truth value of a name read from the store: \<^verbatim>\<open>None\<close> and the empty string
  are false.
\<close>

fun truthy :: "string option \<Rightarrow> bool" where
  "truthy None = False"
| "truthy (Some n) = (n \<noteq> [])"

definition free_credential_from_user :: "int \<Rightarrow> db \<Rightarrow> string option \<times> db" where
  "free_credential_from_user uid s =
     (case get_user s uid of
        None \<Rightarrow> (None, s)
      | Some u \<Rightarrow>
          if \<not> truthy (assigned_username u) then (None, s)
          else
            (let username_to_free = the (assigned_username u) in
             (Some username_to_free,
              update_credential_status username_to_free Available
                (update_user uid
                   (\<lambda>u. u\<lparr>assigned_username := None, assigned_password := None\<rparr>) s))))"

section \<open>Handlers\<close>

text \<open>
  The handlers are modelled from the parsed arguments on: the admin gate \<^verbatim>\<open>is_admin\<close>
  and the parsing of the command line come before and touch no record. A call of
  \<^verbatim>\<open>send_message\<close> or \<^verbatim>\<open>reply_text\<close> is an entry of the handler's outbox; its wording
  is left out, and whether the transport delivers it is outside the model. No handler
  awaits between its first and its last access to the store, so each one is a single step.
\<close>

datatype chat = Admin | Requester | UserChat int

datatype message =
    CleanupComplete int string
  | PlanExpired
  | CleanupSkippedCheckManually int
  | CleanupSkippedRevoked int
  | UserNotFoundReply int
  | OutOfStockReply int
  | AccessGrantedReply int int string
  | AccessGrantedNotice int
  | AccessRevokedReply int
  | AccessRevokedNotice
  | CredentialFreedReply string int
  | PlanEndedAdmin int
  | PlanEndedUser
  | NoCredentialReply int

type_synonym outbox = "(chat \<times> message) list"

text \<open>\<^verbatim>\<open>run_cleanup_task_after_delay\<close> of \<^verbatim>\<open>bot.py\<close>, from the end of the sleep on.\<close>

definition run_cleanup_task_after_delay :: "int \<Rightarrow> db \<Rightarrow> db \<times> outbox" where
  "run_cleanup_task_after_delay uid s =
     (case free_credential_from_user uid s of (freed_username, s1) \<Rightarrow>
        if truthy freed_username
        then (revoke_user_access uid s1,
              [(Admin, CleanupComplete uid (the freed_username)), (UserChat uid, PlanExpired)])
        else (s1, [(Admin, CleanupSkippedCheckManually uid)]))"

text \<open>\<^verbatim>\<open>run_cleanup_task_after_delay\<close> of \<^verbatim>\<open>bot_v2.0.py\<close>.\<close>

definition run_cleanup_task_after_delay_v2 :: "int \<Rightarrow> db \<Rightarrow> db \<times> outbox" where
  "run_cleanup_task_after_delay_v2 uid s =
     (case free_credential_from_user uid s of (freed_username, s1) \<Rightarrow>
        if truthy freed_username
        then (revoke_user_access uid s1,
              [(Admin, CleanupComplete uid (the freed_username)), (UserChat uid, PlanExpired)])
        else (revoke_user_access uid s1, [(Admin, CleanupSkippedRevoked uid)]))"

text \<open>
  \<^verbatim>\<open>permit_bot_use\<close>. The clock is read twice, by \<^verbatim>\<open>get_available_credential\<close> and by
  \<^verbatim>\<open>grant_user_access\<close>. The third component is the list of the cleanup tasks created,
  each a user and a delay in seconds. The user exists where the credential is
  assigned, so the two versions of \<^verbatim>\<open>assign_credential_to_user\<close> agree there.
\<close>

datatype permit_result = UserNotFound | OutOfStock | Granted credential

definition permit_bot_use ::
  "int \<Rightarrow> int \<Rightarrow> int \<Rightarrow> int \<Rightarrow> db \<Rightarrow> permit_result \<times> db \<times> (int \<times> int) list \<times> outbox" where
  "permit_bot_use now_find now_grant target_user_id days_to_grant s =
     (case get_user s target_user_id of
        None \<Rightarrow> (UserNotFound, s, [], [(Requester, UserNotFoundReply target_user_id)])
      | Some _ \<Rightarrow>
          (case get_available_credential now_find s days_to_grant of
             None \<Rightarrow> (OutOfStock, s, [], [(Requester, OutOfStockReply days_to_grant)])
           | Some available_cred \<Rightarrow>
               (let s1 = assign_credential_to_user target_user_id available_cred s;
                    s2 = grant_user_access now_grant target_user_id days_to_grant s1;
                    seconds_to_wait = days_to_grant * 86400
                in (Granted available_cred, s2, [(target_user_id, seconds_to_wait)],
                    [(Requester, AccessGrantedReply target_user_id days_to_grant
                        (username available_cred)),
                     (UserChat target_user_id, AccessGrantedNotice days_to_grant)]))))"

definition restrict_bot_use :: "int \<Rightarrow> db \<Rightarrow> db \<times> outbox" where
  "restrict_bot_use target_user_id s =
     (case get_user s target_user_id of
        Some _ \<Rightarrow> (revoke_user_access target_user_id s,
                   [(Requester, AccessRevokedReply target_user_id),
                    (UserChat target_user_id, AccessRevokedNotice)])
      | None \<Rightarrow> (s, [(Requester, UserNotFoundReply target_user_id)]))"

text \<open>
  \<^verbatim>\<open>free_credential\<close>: the two versions differ in the second message only
  (\<^verbatim>\<open>bot.py\<close> tells the admin, \<^verbatim>\<open>bot_v2.0.py\<close> tells the user).
\<close>

definition free_credential :: "bool \<Rightarrow> int \<Rightarrow> db \<Rightarrow> db \<times> outbox" where
  "free_credential v2 target_user_id s =
     (case free_credential_from_user target_user_id s of (freed_username, s1) \<Rightarrow>
        if truthy freed_username
        then (revoke_user_access target_user_id s1,
              [(Requester, CredentialFreedReply (the freed_username) target_user_id),
               (if v2 then (UserChat target_user_id, PlanEndedUser)
                else (Admin, PlanEndedAdmin target_user_id))])
        else (s1, [(Requester, NoCredentialReply target_user_id)]))"

section \<open>The bot as a transition system\<close>

text \<open>
  Every handler that writes to the store, as one operation. \<^verbatim>\<open>start\<close>,
  \<^verbatim>\<open>check_user_permission\<close> and \<^verbatim>\<open>handle_chess_link\<close> write through \<^verbatim>\<open>add_or_get_user\<close>
  only. A cleanup task may fire at any moment here, which covers the moments at which
  the scheduled ones do. The flag \<open>v2\<close> selects \<^verbatim>\<open>bot_v2.0.py\<close>.
\<close>

datatype op =
    Start int
  | AddCredential int string string int
  | EditCredential int string string int
  | PermitBotUse int int int int
  | RestrictBotUse int
  | FreeCredential int
  | CleanupTask int

fun step :: "bool \<Rightarrow> op \<Rightarrow> db \<Rightarrow> db" where
  "step v2 (Start uid) s = snd (add_or_get_user s uid)"
| "step v2 (AddCredential now n pw days) s = snd (add_credential_to_pool now n pw days s)"
| "step v2 (EditCredential now n pw days) s = snd (edit_credential_in_pool now n pw days s)"
| "step v2 (PermitBotUse now_find now_grant uid days) s =
     fst (snd (permit_bot_use now_find now_grant uid days s))"
| "step v2 (RestrictBotUse uid) s = fst (restrict_bot_use uid s)"
| "step v2 (FreeCredential uid) s = fst (free_credential v2 uid s)"
| "step v2 (CleanupTask uid) s =
     fst (if v2 then run_cleanup_task_after_delay_v2 uid s
          else run_cleanup_task_after_delay uid s)"

fun run :: "bool \<Rightarrow> op list \<Rightarrow> db \<Rightarrow> db" where
  "run v2 [] s = s"
| "run v2 (a # as) s = run v2 as (step v2 a s)"

text \<open>The name that an operation frees in a state, if it frees one.\<close>

fun freed_by :: "op \<Rightarrow> db \<Rightarrow> string option" where
  "freed_by (FreeCredential uid) s = fst (free_credential_from_user uid s)"
| "freed_by (CleanupTask uid) s = fst (free_credential_from_user uid s)"
| "freed_by _ s = None"

fun never_freed :: "bool \<Rightarrow> string \<Rightarrow> op list \<Rightarrow> db \<Rightarrow> bool" where
  "never_freed v2 n [] s = True"
| "never_freed v2 n (a # as) s = (freed_by a s \<noteq> Some n \<and> never_freed v2 n as (step v2 a s))"

definition holders :: "db \<Rightarrow> string \<Rightarrow> int set" where
  "holders s n = {uid. \<exists>u. users s uid = Some u \<and> assigned_username u = Some n}"

text \<open>The name that a user holds, \<open>None\<close> for a user without a record.\<close>

definition held :: "db \<Rightarrow> int \<Rightarrow> string option" where
  "held s uid = Option.bind (users s uid) assigned_username"

text \<open>A name is in use when the pool has a credential of that name and each such is in use.\<close>

definition in_use_name :: "db \<Rightarrow> string \<Rightarrow> bool" where
  "in_use_name s n =
     ((\<exists>c \<in> set (credentials s). username c = n) \<and>
      (\<forall>c \<in> set (credentials s). username c = n \<longrightarrow> status c = InUse))"

text \<open>
  The invariant of the pool: a name that a user holds is held by that user alone, and
  it is in use.
\<close>

definition pool_inv :: "db \<Rightarrow> bool" where
  "pool_inv s = (\<forall>n uid. uid \<in> holders s n \<longrightarrow> holders s n = {uid} \<and> in_use_name s n)"

text \<open>What a step does to the names held and to the names in use.\<close>

definition quiet :: "db \<Rightarrow> db \<Rightarrow> bool" where
  "quiet s s' = ((\<forall>uid. held s' uid = held s uid) \<and> (\<forall>k. in_use_name s k \<longrightarrow> in_use_name s' k))"

definition frees :: "int \<Rightarrow> string \<Rightarrow> db \<Rightarrow> db \<Rightarrow> bool" where
  "frees u m s s' =
     (held s u = Some m \<and>
      (\<forall>uid. held s' uid = (if uid = u then None else held s uid)) \<and>
      (\<forall>k. in_use_name s' k = (k \<noteq> m \<and> in_use_name s k)))"

definition grants :: "int \<Rightarrow> string \<Rightarrow> db \<Rightarrow> db \<Rightarrow> bool" where
  "grants u m s s' =
     (\<not> in_use_name s m \<and>
      (\<forall>uid. held s' uid = (if uid = u then Some m else held s uid)) \<and>
      (\<forall>k. in_use_name s' k = (k = m \<or> in_use_name s k)))"


text \<open>
  A user who holds no name is neither active nor has a plan's expiry; and no credential
  has the empty name.
\<close>

definition consistent_user :: "user \<Rightarrow> bool" where
  "consistent_user u =
     (truthy (assigned_username u) \<or> (\<not> is_bot_use u \<and> plan_expiry_date u = None))"

definition others_consistent :: "int \<Rightarrow> db \<Rightarrow> bool" where
  "others_consistent uid s =
     (\<forall>uid' u. uid' \<noteq> uid \<and> users s uid' = Some u \<longrightarrow> consistent_user u)"

definition users_consistent :: "db \<Rightarrow> bool" where
  "users_consistent s = (\<forall>uid u. users s uid = Some u \<longrightarrow> consistent_user u)"

definition names_nonempty :: "db \<Rightarrow> bool" where
  "names_nonempty s = (\<not> (\<exists>c \<in> set (credentials s). username c = []))"


section \<open>Example states\<close>

definition cred_A :: credential where
  "cred_A = \<lparr>username = ''A'', password = ''pa'', status = Available,
     credential_expiry_date = timedelta_days 10\<rparr>"

definition cred_B :: credential where
  "cred_B = \<lparr>username = ''B'', password = ''pb'', status = Available,
     credential_expiry_date = timedelta_days 20\<rparr>"

definition pool_AB :: db where
  "pool_AB = \<lparr>users = [1 \<mapsto> new_user 1], credentials = [cred_B, cred_A]\<rparr>"

definition user_holding_A :: user where
  "user_holding_A = \<lparr>user_id = 1, is_bot_use = True, plan_expiry_date = Some (timedelta_days 5),
     assigned_username = Some ''A'', assigned_password = Some ''pa''\<rparr>"

definition leased_db :: db where
  "leased_db = \<lparr>users = [1 \<mapsto> user_holding_A],
     credentials = [cred_B, cred_A\<lparr>status := InUse\<rparr>]\<rparr>"

definition active_user_without_credential :: user where
  "active_user_without_credential =
     \<lparr>user_id = 1, is_bot_use = True, plan_expiry_date = Some (timedelta_days 5),
      assigned_username = None, assigned_password = None\<rparr>"

definition freed_not_revoked_db :: db where
  "freed_not_revoked_db = \<lparr>users = [1 \<mapsto> active_user_without_credential],
     credentials = [cred_B, cred_A]\<rparr>"

definition after_assign :: db where
  "after_assign = assign_credential_to_user 1 cred_A pool_AB"

definition later_ops :: "op list" where
  "later_ops = [RestrictBotUse 1, EditCredential 0 ''A'' ''pz'' 30, FreeCredential 2]"


lemmas example_defs = cred_A_def cred_B_def pool_AB_def user_holding_A_def leased_db_def
  active_user_without_credential_def freed_not_revoked_db_def new_user_def timedelta_days_def

section \<open>Best fit\<close>

lemma sort_key_head_least:
  assumes "sort_key f xs = y # ys" and "x \<in> set xs"
  shows "f y \<le> f x"
proof -
  have srt: "sorted (map f (sort_key f xs))"
    by (rule sorted_sort_key)
  have "x \<in> set (sort_key f xs)"
    using assms(2) by simp
  then have "x = y \<or> x \<in> set ys"
    using assms(1) by simp
  moreover have "\<forall>z \<in> set ys. f y \<le> f z"
    using srt assms(1) by simp
  ultimately show ?thesis
    by auto
qed

lemma sort_key_head_mem:
  assumes "sort_key f xs = y # ys"
  shows "y \<in> set xs"
proof -
  have "y \<in> set (sort_key f xs)"
    using assms by simp
  then show ?thesis
    by simp
qed

text \<open>
  C1. \<^verbatim>\<open>get_available_credential\<close> returns a credential only if it is in the pool, has
  status available and expires at or after \<open>now + d\<close> days; among all such credentials the
  one it returns has the least expiry; it returns \<open>None\<close> exactly when no credential of the
  pool meets the constraint.
\<close>

theorem get_available_credential_best_fit:
  "case get_available_credential now s d of
     None \<Rightarrow>
       \<not> (\<exists>c \<in> set (credentials s).
            status c = Available \<and> now + timedelta_days d \<le> credential_expiry_date c)
   | Some c \<Rightarrow>
       c \<in> set (credentials s) \<and> status c = Available \<and>
       now + timedelta_days d \<le> credential_expiry_date c \<and>
       (\<forall>c' \<in> set (credentials s).
          status c' = Available \<and> now + timedelta_days d \<le> credential_expiry_date c'
          \<longrightarrow> credential_expiry_date c \<le> credential_expiry_date c')"
proof -
  define ok where
    "ok = (\<lambda>c::credential. status c = Available \<and> now + timedelta_days d \<le> credential_expiry_date c)"
  define cands where "cands = filter ok (credentials s)"
  have res: "get_available_credential now s d =
      (case sort_key credential_expiry_date cands of [] \<Rightarrow> None | c # _ \<Rightarrow> Some c)"
    by (simp add: get_available_credential_def cands_def ok_def)
  show ?thesis
  proof (cases "sort_key credential_expiry_date cands")
    case Nil
    then have "set cands = {}"
      by (metis set_sort set_empty)
    then have "\<forall>c \<in> set (credentials s). \<not> ok c"
      by (auto simp: cands_def)
    then show ?thesis
      using Nil res by (simp add: ok_def)
  next
    case (Cons c cs)
    have mem: "c \<in> set cands"
      using Cons by (rule sort_key_head_mem)
    have least: "\<forall>c' \<in> set cands. credential_expiry_date c \<le> credential_expiry_date c'"
      using Cons by (blast intro: sort_key_head_least)
    have "c \<in> set (credentials s) \<and> ok c"
      using mem by (simp add: cands_def)
    moreover have "\<forall>c' \<in> set (credentials s).
        ok c' \<longrightarrow> credential_expiry_date c \<le> credential_expiry_date c'"
      using least by (simp add: cands_def)
    ultimately show ?thesis
      using Cons res by (simp add: ok_def)
  qed
qed

theorem get_available_credential_best_fit_witness:
  "get_available_credential 0 pool_AB 5 = Some cred_A \<and>
   get_available_credential 0 pool_AB 15 = Some cred_B \<and>
   get_available_credential 0 pool_AB 25 = None"
  using get_available_credential_best_fit [where now = 0 and s = pool_AB and d = 5]
    get_available_credential_best_fit [where now = 0 and s = pool_AB and d = 15]
    get_available_credential_best_fit [where now = 0 and s = pool_AB and d = 25]
  by (simp add: get_available_credential_def example_defs)

lemma found_credential_available:
  assumes "get_available_credential now s d = Some c"
  shows "c \<in> set (credentials s) \<and> status c = Available"
proof -
  obtain cs where "sort_key credential_expiry_date
      (filter (\<lambda>c. status c = Available \<and> now + timedelta_days d \<le> credential_expiry_date c)
         (credentials s)) = c # cs"
    using assms by (auto simp: get_available_credential_def Let_def split: list.splits)
  then have "c \<in> set (filter (\<lambda>c. status c = Available \<and>
      now + timedelta_days d \<le> credential_expiry_date c) (credentials s))"
    by (rule sort_key_head_mem)
  then show ?thesis
    by simp
qed

section \<open>Granting access\<close>

text \<open>
  C4. \<^verbatim>\<open>permit_bot_use\<close> answers user-not-found when the user has no record and
  out-of-stock when \<^verbatim>\<open>get_available_credential\<close> finds nothing, and in both cases leaves
  the store as it was and creates no task. Otherwise it assigns the credential found,
  then grants access (the active flag true, the plan's expiry the grant's clock plus the
  days), then creates one cleanup task with a delay of \<open>days * 86400\<close> seconds.
\<close>

theorem permit_bot_use_grant:
  "(get_user s uid = None \<longrightarrow>
      fst (permit_bot_use now_find now_grant uid days s) = UserNotFound \<and>
      fst (snd (permit_bot_use now_find now_grant uid days s)) = s \<and>
      fst (snd (snd (permit_bot_use now_find now_grant uid days s))) = []) \<and>
   (get_user s uid = Some u \<and> get_available_credential now_find s days = None \<longrightarrow>
      fst (permit_bot_use now_find now_grant uid days s) = OutOfStock \<and>
      fst (snd (permit_bot_use now_find now_grant uid days s)) = s \<and>
      fst (snd (snd (permit_bot_use now_find now_grant uid days s))) = []) \<and>
   (get_user s uid = Some u \<and> get_available_credential now_find s days = Some c \<longrightarrow>
      fst (permit_bot_use now_find now_grant uid days s) = Granted c \<and>
      fst (snd (permit_bot_use now_find now_grant uid days s)) =
        grant_user_access now_grant uid days (assign_credential_to_user uid c s) \<and>
      assign_credential_to_user_v2 uid c s = assign_credential_to_user uid c s \<and>
      users (fst (snd (permit_bot_use now_find now_grant uid days s))) uid =
        Some (u\<lparr>assigned_username := Some (username c), assigned_password := Some (password c),
                is_bot_use := True,
                plan_expiry_date := Some (now_grant + timedelta_days days)\<rparr>) \<and>
      c\<lparr>status := InUse\<rparr> \<in> set (credentials (fst (snd (permit_bot_use now_find now_grant uid days s)))) \<and>
      fst (snd (snd (permit_bot_use now_find now_grant uid days s))) = [(uid, days * 86400)])"
proof -
  have mem: "c \<in> set (credentials s)"
    if "get_available_credential now_find s days = Some c"
    using that found_credential_available by blast
  show ?thesis
    by (auto simp: permit_bot_use_def Let_def get_user_def grant_user_access_def
        assign_credential_to_user_def assign_credential_to_user_v2_def update_user_def
        update_credential_status_def dest!: mem intro!: image_eqI)
qed

theorem permit_bot_use_grant_witness:
  "get_user pool_AB 2 = None \<and>
   get_user pool_AB 1 = Some (new_user 1) \<and>
   get_available_credential 0 pool_AB 25 = None \<and>
   get_available_credential 0 pool_AB 5 = Some cred_A \<and>
   fst (permit_bot_use 0 7 2 5 pool_AB) = UserNotFound \<and>
   fst (snd (permit_bot_use 0 7 2 5 pool_AB)) = pool_AB \<and>
   fst (permit_bot_use 0 7 1 25 pool_AB) = OutOfStock \<and>
   fst (snd (permit_bot_use 0 7 1 25 pool_AB)) = pool_AB \<and>
   fst (permit_bot_use 0 7 1 5 pool_AB) = Granted cred_A \<and>
   users (fst (snd (permit_bot_use 0 7 1 5 pool_AB))) 1 =
     Some \<lparr>user_id = 1, is_bot_use = True, plan_expiry_date = Some (7 + timedelta_days 5),
           assigned_username = Some ''A'', assigned_password = Some ''pa''\<rparr> \<and>
   fst (snd (snd (permit_bot_use 0 7 1 5 pool_AB))) = [(1, 432000)]"
proof -
  have h1: "get_user pool_AB 2 = None"
    by (simp add: get_user_def pool_AB_def)
  have h2: "get_user pool_AB 1 = Some (new_user 1)"
    by (simp add: get_user_def pool_AB_def)
  have h3: "get_available_credential 0 pool_AB 25 = None"
    by (simp add: get_available_credential_def example_defs)
  have h4: "get_available_credential 0 pool_AB 5 = Some cred_A"
    by (simp add: get_available_credential_def example_defs)
  show ?thesis
    using h1 h2 h3 h4
      permit_bot_use_grant [where s = pool_AB and uid = 2 and days = 5 and now_find = 0
        and now_grant = 7]
      permit_bot_use_grant [where s = pool_AB and uid = 1 and days = 25 and now_find = 0
        and now_grant = 7 and u = "new_user 1"]
      permit_bot_use_grant [where s = pool_AB and uid = 1 and days = 5 and now_find = 0
        and now_grant = 7 and u = "new_user 1" and c = cred_A]
    by (simp add: new_user_def cred_A_def grant_user_access_def assign_credential_to_user_def
        update_user_def update_credential_status_def pool_AB_def)
qed

section \<open>Freeing a credential\<close>

text \<open>
  C5. \<^verbatim>\<open>free_credential_from_user\<close> on a user without a record, or whose assigned name
  is \<open>None\<close> or empty, returns \<open>None\<close> and leaves the store as it was, so a second call
  does the same. On a user who holds the name \<open>n\<close> it returns \<open>n\<close>, clears the user's
  assigned name and password and sets the status of the credential \<open>n\<close> to available;
  nothing else changes.
\<close>

theorem free_credential_from_user_effect:
  "(get_user s uid = None \<longrightarrow> free_credential_from_user uid s = (None, s)) \<and>
   (get_user s uid = Some u \<and> \<not> truthy (assigned_username u) \<longrightarrow>
      free_credential_from_user uid s = (None, s)) \<and>
   (free_credential_from_user uid s = (None, s) \<longrightarrow>
      free_credential_from_user uid (snd (free_credential_from_user uid s)) = (None, s)) \<and>
   (get_user s uid = Some u \<and> assigned_username u = Some n \<and> n \<noteq> [] \<longrightarrow>
      free_credential_from_user uid s =
        (Some n,
         \<lparr>users = (users s)(uid \<mapsto> u\<lparr>assigned_username := None, assigned_password := None\<rparr>),
          credentials = map (\<lambda>c. if username c = n then c\<lparr>status := Available\<rparr> else c)
             (credentials s)\<rparr>))"
  by (auto simp: free_credential_from_user_def get_user_def update_user_def
      update_credential_status_def Let_def)

theorem free_credential_from_user_effect_witness:
  "free_credential_from_user 2 leased_db = (None, leased_db) \<and>
   free_credential_from_user 1 pool_AB = (None, pool_AB) \<and>
   free_credential_from_user 1 (snd (free_credential_from_user 1 pool_AB)) = (None, pool_AB) \<and>
   free_credential_from_user 1 leased_db =
     (Some ''A'',
      \<lparr>users = [1 \<mapsto> user_holding_A\<lparr>assigned_username := None, assigned_password := None\<rparr>],
       credentials = [cred_B, cred_A]\<rparr>)"
proof -
  have h1: "get_user leased_db 2 = None"
    by (simp add: get_user_def leased_db_def)
  have h2: "get_user pool_AB 1 = Some (new_user 1) \<and> \<not> truthy (assigned_username (new_user 1))"
    by (simp add: get_user_def pool_AB_def new_user_def)
  have h3: "get_user leased_db 1 = Some user_holding_A \<and>
      assigned_username user_holding_A = Some ''A'' \<and> ''A'' \<noteq> []"
    by (simp add: get_user_def leased_db_def user_holding_A_def)
  show ?thesis
    using h1 h2 h3
      free_credential_from_user_effect [where s = leased_db and uid = 2]
      free_credential_from_user_effect [where s = pool_AB and uid = 1 and u = "new_user 1"]
      free_credential_from_user_effect [where s = leased_db and uid = 1 and u = user_holding_A
        and n = "''A''"]
    by (simp add: leased_db_def cred_A_def cred_B_def)
qed

text \<open>
  C6. The handler \<^verbatim>\<open>free_credential\<close>, in both versions: when the user holds a credential
  the freed user's record ends with the active flag false, no expiry of the plan and no
  assigned credential; when the user holds none, or has no record, the store is left as
  it was, so access is not revoked.
\<close>

theorem free_credential_revokes:
  "(get_user s uid = Some u \<and> truthy (assigned_username u) \<longrightarrow>
      users (fst (free_credential v2 uid s)) uid =
        Some (u\<lparr>assigned_username := None, assigned_password := None,
                is_bot_use := False, plan_expiry_date := None\<rparr>)) \<and>
   (get_user s uid = None \<or> (get_user s uid = Some u \<and> \<not> truthy (assigned_username u)) \<longrightarrow>
      fst (free_credential v2 uid s) = s)"
  by (cases "assigned_username u")
    (auto simp: free_credential_def free_credential_from_user_def get_user_def
      revoke_user_access_def update_user_def update_credential_status_def Let_def)

theorem free_credential_revokes_witness:
  "users (fst (free_credential False 1 leased_db)) 1 = Some (new_user 1) \<and>
   users (fst (free_credential True 1 leased_db)) 1 = Some (new_user 1) \<and>
   fst (free_credential True 1 freed_not_revoked_db) = freed_not_revoked_db \<and>
   is_bot_use active_user_without_credential"
proof -
  have h1: "get_user leased_db 1 = Some user_holding_A \<and> truthy (assigned_username user_holding_A)"
    by (simp add: get_user_def leased_db_def user_holding_A_def)
  have h2: "get_user freed_not_revoked_db 1 = Some active_user_without_credential \<and>
      \<not> truthy (assigned_username active_user_without_credential)"
    by (simp add: get_user_def freed_not_revoked_db_def active_user_without_credential_def)
  show ?thesis
    using h1 h2
      free_credential_revokes [where s = leased_db and uid = 1 and u = user_holding_A
        and ?v2.0 = False]
      free_credential_revokes [where s = leased_db and uid = 1 and u = user_holding_A
        and ?v2.0 = True]
      free_credential_revokes [where s = freed_not_revoked_db and uid = 1
        and u = active_user_without_credential and ?v2.0 = True]
    by (simp add: user_holding_A_def new_user_def active_user_without_credential_def)
qed

lemma truthy_iff: "truthy x \<longleftrightarrow> (\<exists>n. x = Some n \<and> n \<noteq> [])"
  by (cases x) simp_all

text \<open>
  C9. When \<^verbatim>\<open>free_credential_from_user\<close> frees a name, the user held that name, and
  afterwards the user's record has neither an assigned name nor an assigned password.
  The same holds after the handler \<^verbatim>\<open>free_credential\<close> and after the cleanup task of
  either version, which free through that function.
\<close>

theorem free_clears_assigned_password:
  assumes "fst (free_credential_from_user uid s) = Some n"
  shows "(\<exists>u. users s uid = Some u \<and> assigned_username u = Some n) \<and>
         (\<forall>s' \<in> {snd (free_credential_from_user uid s), fst (free_credential v2 uid s),
                  fst (run_cleanup_task_after_delay uid s),
                  fst (run_cleanup_task_after_delay_v2 uid s)}.
            \<exists>u'. users s' uid = Some u' \<and> assigned_username u' = None \<and>
                 assigned_password u' = None)"
proof -
  obtain u where u: "users s uid = Some u" and tr: "truthy (assigned_username u)"
    and n: "assigned_username u = Some n"
    using assms
    by (auto simp: free_credential_from_user_def get_user_def Let_def truthy_iff
        split: option.splits if_splits)
  have free: "free_credential_from_user uid s =
      (Some n, update_credential_status n Available
                 (update_user uid (\<lambda>u. u\<lparr>assigned_username := None, assigned_password := None\<rparr>) s))"
    using u tr n by (simp add: free_credential_from_user_def get_user_def Let_def)
  have nn: "n \<noteq> []"
    using tr n by simp
  show ?thesis
    using u n nn
    by (simp add: free free_credential_def run_cleanup_task_after_delay_def
        run_cleanup_task_after_delay_v2_def revoke_user_access_def update_user_def
        update_credential_status_def)
qed

theorem free_clears_assigned_password_witness:
  "fst (free_credential_from_user 1 leased_db) = Some ''A'' \<and>
   assigned_password user_holding_A = Some ''pa'' \<and>
   map_option assigned_password (users (snd (free_credential_from_user 1 leased_db)) 1)
     = Some None \<and>
   map_option assigned_password (users (fst (run_cleanup_task_after_delay 1 leased_db)) 1)
     = Some None"
proof -
  have h: "fst (free_credential_from_user 1 leased_db) = Some ''A''"
    by (simp add: free_credential_from_user_def get_user_def leased_db_def user_holding_A_def
        Let_def)
  show ?thesis
    using h free_clears_assigned_password [OF h, where ?v2.0 = False]
    by (auto simp: user_holding_A_def)
qed

section \<open>Revoking access\<close>

text \<open>
  C7. \<^verbatim>\<open>revoke_user_access\<close> sets the user's active flag to false and the plan's expiry
  to \<open>None\<close> and changes nothing else: the user's assigned name and password stay, every
  other user stays, and the credentials, their status included, stay as they were.
\<close>

theorem revoke_user_access_frame:
  "credentials (revoke_user_access uid s) = credentials s \<and>
   (\<forall>uid'. users (revoke_user_access uid s) uid' =
      (if uid' = uid
       then map_option (\<lambda>u. u\<lparr>is_bot_use := False, plan_expiry_date := None\<rparr>) (users s uid)
       else users s uid'))"
  by (auto simp: revoke_user_access_def update_user_def split: option.splits)

theorem revoke_user_access_frame_witness:
  "credentials (revoke_user_access 1 leased_db) = [cred_B, cred_A\<lparr>status := InUse\<rparr>] \<and>
   users (revoke_user_access 1 leased_db) 1 =
     Some \<lparr>user_id = 1, is_bot_use = False, plan_expiry_date = None,
           assigned_username = Some ''A'', assigned_password = Some ''pa''\<rparr> \<and>
   users (revoke_user_access 1 leased_db) 2 = None"
  using revoke_user_access_frame [where uid = 1 and s = leased_db]
  by (simp add: leased_db_def user_holding_A_def)

section \<open>Editing a credential\<close>

text \<open>
  C8. \<^verbatim>\<open>edit_credential_in_pool\<close> returns \<open>False\<close> and leaves the store as it was when no
  credential has the name; otherwise it returns \<open>True\<close>, gives the credential of that name
  the new password and the expiry \<open>now + new_days\<close>, keeps its status, and changes no
  other credential and no user.
\<close>

theorem edit_credential_in_pool_frame:
  "(get_credential s n = None \<longrightarrow> edit_credential_in_pool now n pw days s = (False, s)) \<and>
   (get_credential s n \<noteq> None \<longrightarrow>
      fst (edit_credential_in_pool now n pw days s) = True \<and>
      users (snd (edit_credential_in_pool now n pw days s)) = users s \<and>
      credentials (snd (edit_credential_in_pool now n pw days s)) =
        map (\<lambda>c. if username c = n
                  then \<lparr>username = n, password = pw, status = status c,
                        credential_expiry_date = now + timedelta_days days\<rparr>
                  else c) (credentials s))"
  by (auto simp: edit_credential_in_pool_def Let_def split: option.splits)

theorem edit_credential_in_pool_frame_witness:
  "edit_credential_in_pool 3 ''C'' ''new'' 30 leased_db = (False, leased_db) \<and>
   fst (edit_credential_in_pool 3 ''A'' ''new'' 30 leased_db) = True \<and>
   credentials (snd (edit_credential_in_pool 3 ''A'' ''new'' 30 leased_db)) =
     [cred_B, \<lparr>username = ''A'', password = ''new'', status = InUse,
               credential_expiry_date = 3 + timedelta_days 30\<rparr>]"
proof -
  have h1: "get_credential leased_db ''C'' = None"
    by (simp add: get_credential_def leased_db_def cred_A_def cred_B_def)
  have h2: "get_credential leased_db ''A'' \<noteq> None"
    by (simp add: get_credential_def leased_db_def cred_A_def cred_B_def)
  show ?thesis
    using h1 h2
      edit_credential_in_pool_frame [where s = leased_db and n = "''C''" and now = 3
        and pw = "''new''" and days = 30]
      edit_credential_in_pool_frame [where s = leased_db and n = "''A''" and now = 3
        and pw = "''new''" and days = 30]
    by (simp add: leased_db_def cred_A_def cred_B_def)
qed

section \<open>The lazy creation of users\<close>

text \<open>
  C10. \<^verbatim>\<open>add_or_get_user\<close> inserts a record with the active flag false, no expiry and no
  assigned credential when the user has none, and returns the existing record with the
  store untouched when the user has one; no other user and no credential changes.
\<close>

theorem add_or_get_user_upsert:
  "(get_user s uid = None \<longrightarrow>
      add_or_get_user s uid =
        (\<lparr>user_id = uid, is_bot_use = False, plan_expiry_date = None,
          assigned_username = None, assigned_password = None\<rparr>,
         s\<lparr>users := (users s)(uid \<mapsto>
            \<lparr>user_id = uid, is_bot_use = False, plan_expiry_date = None,
             assigned_username = None, assigned_password = None\<rparr>)\<rparr>)) \<and>
   (get_user s uid = Some u \<longrightarrow> add_or_get_user s uid = (u, s)) \<and>
   (\<forall>uid'. uid' \<noteq> uid \<longrightarrow> users (snd (add_or_get_user s uid)) uid' = users s uid') \<and>
   credentials (snd (add_or_get_user s uid)) = credentials s"
  by (auto simp: add_or_get_user_def new_user_def split: option.splits)

theorem add_or_get_user_upsert_witness:
  "add_or_get_user leased_db 1 = (user_holding_A, leased_db) \<and>
   fst (add_or_get_user leased_db 2) = new_user 2 \<and>
   users (snd (add_or_get_user leased_db 2)) 2 = Some (new_user 2) \<and>
   users (snd (add_or_get_user leased_db 2)) 1 = Some user_holding_A"
proof -
  have h1: "get_user leased_db 1 = Some user_holding_A"
    by (simp add: get_user_def leased_db_def)
  have h2: "get_user leased_db 2 = None"
    by (simp add: get_user_def leased_db_def)
  show ?thesis
    using h1 h2
      add_or_get_user_upsert [where s = leased_db and uid = 1 and u = user_holding_A]
      add_or_get_user_upsert [where s = leased_db and uid = 2]
    by (simp add: new_user_def leased_db_def)
qed

section \<open>Exclusive assignment\<close>

text \<open>The names held and the names in use, after each function that writes.\<close>

lemma holders_held: "holders s n = {uid. held s uid = Some n}"
  by (auto simp: holders_def held_def bind_eq_Some_conv)

lemma pool_inv_held:
  "pool_inv s \<longleftrightarrow>
     (\<forall>n uid. held s uid = Some n \<longrightarrow>
        (\<forall>uid'. held s uid' = Some n \<longrightarrow> uid' = uid) \<and> in_use_name s n)"
proof -
  have "{uid'. held s uid' = Some n} = {uid} \<longleftrightarrow>
      held s uid = Some n \<and> (\<forall>uid'. held s uid' = Some n \<longrightarrow> uid' = uid)" for n uid
    by blast
  then show ?thesis
    unfolding pool_inv_def holders_held by simp
qed

lemma held_update_user:
  "held (update_user uid f s) uid' =
     (if uid' = uid then Option.bind (users s uid) (\<lambda>u. assigned_username (f u)) else held s uid')"
  by (simp add: held_def update_user_def split: option.splits)

lemma credentials_update_user [simp]: "credentials (update_user uid f s) = credentials s"
  by (simp add: update_user_def split: option.splits)

lemma in_use_name_update_user [simp]: "in_use_name (update_user uid f s) n = in_use_name s n"
  by (simp add: in_use_name_def)

lemma held_update_credential_status [simp]:
  "held (update_credential_status n st s) uid = held s uid"
  by (simp add: held_def update_credential_status_def)

lemma usernames_update_credential_status:
  "username ` set (credentials (update_credential_status n st s)) = username ` set (credentials s)"
proof -
  have "map username (credentials (update_credential_status n st s)) =
      map username (credentials s)"
    by (simp add: update_credential_status_def)
  then show ?thesis
    by (metis set_map)
qed

lemma status_update_credential_status:
  "(\<forall>c \<in> set (map (\<lambda>c. if username c = n then c\<lparr>status := st\<rparr> else c) cs).
      username c = m \<longrightarrow> status c = InUse) \<longleftrightarrow>
   (\<forall>c \<in> set cs. username c = m \<longrightarrow> (if m = n then st = InUse else status c = InUse))"
  by (induction cs) simp_all

lemma in_use_name_update_credential_status:
  "in_use_name (update_credential_status n st s) m =
     (if m = n then (\<exists>c \<in> set (credentials s). username c = n) \<and> st = InUse
      else in_use_name s m)"
proof -
  have names: "(\<exists>c \<in> set (credentials (update_credential_status n st s)). username c = m)
      \<longleftrightarrow> (\<exists>c \<in> set (credentials s). username c = m)"
  proof -
    have "(\<exists>c \<in> A. username c = m) \<longleftrightarrow> m \<in> username ` A" for A :: "credential set"
      by auto
    then show ?thesis
      by (simp add: usernames_update_credential_status)
  qed
  have stat: "(\<forall>c \<in> set (credentials (update_credential_status n st s)).
        username c = m \<longrightarrow> status c = InUse) \<longleftrightarrow>
      (\<forall>c \<in> set (credentials s).
        username c = m \<longrightarrow> (if m = n then st = InUse else status c = InUse))"
    unfolding update_credential_status_def
    using status_update_credential_status [of n st "credentials s" m] by simp
  show ?thesis
  proof (cases "m = n")
    case True
    have "in_use_name (update_credential_status n st s) n \<longleftrightarrow>
        (\<exists>c \<in> set (credentials s). username c = n) \<and>
        (\<forall>c \<in> set (credentials s). username c = n \<longrightarrow> st = InUse)"
      unfolding in_use_name_def using names stat True by simp
    also have "\<dots> \<longleftrightarrow> (\<exists>c \<in> set (credentials s). username c = n) \<and> st = InUse"
      by blast
    finally show ?thesis
      using True by simp
  next
    case False
    then show ?thesis
      unfolding in_use_name_def using names stat by simp
  qed
qed

lemma held_update_user_same:
  assumes "\<And>u. assigned_username (f u) = assigned_username u"
  shows "held (update_user uid f s) uid' = held s uid'"
  by (simp add: held_def update_user_def assms split: option.splits)

lemma held_revoke [simp]: "held (revoke_user_access uid s) uid' = held s uid'"
  unfolding revoke_user_access_def by (rule held_update_user_same) simp

lemma in_use_name_revoke [simp]: "in_use_name (revoke_user_access uid s) n = in_use_name s n"
  by (simp add: revoke_user_access_def)

lemma held_grant [simp]: "held (grant_user_access now uid days s) uid' = held s uid'"
  unfolding grant_user_access_def Let_def by (rule held_update_user_same) simp

lemma in_use_name_grant [simp]:
  "in_use_name (grant_user_access now uid days s) n = in_use_name s n"
  by (simp add: grant_user_access_def Let_def)

lemma held_assign:
  "held (assign_credential_to_user uid c s) uid' =
     (if uid' = uid \<and> users s uid \<noteq> None then Some (username c) else held s uid')"
  by (simp add: assign_credential_to_user_def update_user_def update_credential_status_def
      held_def split: option.splits)

lemma in_use_name_assign:
  "in_use_name (assign_credential_to_user uid c s) m =
     (if m = username c then (\<exists>c' \<in> set (credentials s). username c' = username c)
      else in_use_name s m)"
  by (simp add: assign_credential_to_user_def in_use_name_update_credential_status)

lemma free_None:
  assumes "fst (free_credential_from_user uid s) = None"
  shows "free_credential_from_user uid s = (None, s)"
proof (cases "get_user s uid")
  case None
  then show ?thesis
    by (simp add: free_credential_from_user_def)
next
  case (Some u)
  show ?thesis
  proof (cases "truthy (assigned_username u)")
    case True
    then show ?thesis
      using assms Some by (simp add: free_credential_from_user_def Let_def)
  next
    case False
    then show ?thesis
      using Some by (simp add: free_credential_from_user_def)
  qed
qed

lemma free_Some:
  assumes "fst (free_credential_from_user uid s) = Some n"
  shows "held s uid = Some n \<and> n \<noteq> [] \<and>
         snd (free_credential_from_user uid s) =
           update_credential_status n Available
             (update_user uid (\<lambda>u. u\<lparr>assigned_username := None, assigned_password := None\<rparr>) s)"
proof (cases "users s uid")
  case None
  then show ?thesis
    using assms by (simp add: free_credential_from_user_def get_user_def)
next
  case (Some u)
  then have tr: "truthy (assigned_username u)"
    using assms by (simp add: free_credential_from_user_def get_user_def split: if_splits)
  then obtain k where k: "assigned_username u = Some k" "k \<noteq> []"
    by (auto simp: truthy_iff)
  then show ?thesis
    using assms Some by (simp add: free_credential_from_user_def get_user_def held_def Let_def)
qed

lemma held_free:
  "held (snd (free_credential_from_user uid s)) uid' =
     (if uid' = uid \<and> fst (free_credential_from_user uid s) \<noteq> None then None else held s uid')"
proof (cases "fst (free_credential_from_user uid s)")
  case None
  then show ?thesis by (simp add: free_None)
next
  case (Some n)
  have "held s uid = Some n"
    using free_Some [OF Some] by simp
  then have "users s uid \<noteq> None"
    by (cases "users s uid") (simp_all add: held_def)
  then show ?thesis
    using free_Some [OF Some] Some by (auto simp: held_update_user)
qed

lemma in_use_name_free:
  "in_use_name (snd (free_credential_from_user uid s)) m =
     (if fst (free_credential_from_user uid s) = Some m then False else in_use_name s m)"
proof (cases "fst (free_credential_from_user uid s)")
  case None
  then show ?thesis by (simp add: free_None)
next
  case (Some n)
  then show ?thesis
    using free_Some [OF Some]
    by (simp add: in_use_name_update_credential_status)
qed

lemma held_add_or_get_user [simp]: "held (snd (add_or_get_user s uid)) uid' = held s uid'"
  by (simp add: add_or_get_user_def get_user_def held_def new_user_def split: option.splits)

lemma in_use_name_add_or_get_user [simp]:
  "in_use_name (snd (add_or_get_user s uid)) n = in_use_name s n"
  by (simp add: add_or_get_user_def in_use_name_def split: option.splits)

lemma held_add_credential [simp]:
  "held (snd (add_credential_to_pool now n pw days s)) uid = held s uid"
  by (simp add: add_credential_to_pool_def held_def split: option.splits)

lemma get_credential_None: "get_credential s n = None \<longleftrightarrow> (\<forall>c \<in> set (credentials s). username c \<noteq> n)"
  by (auto simp: get_credential_def find_None_iff)

lemma in_use_name_add_credential:
  assumes "in_use_name s m"
  shows "in_use_name (snd (add_credential_to_pool now n pw days s)) m"
proof (cases "get_credential s n")
  case None
  then have "m \<noteq> n"
    using assms by (auto simp: get_credential_None in_use_name_def)
  then show ?thesis
    using assms None by (auto simp: add_credential_to_pool_def in_use_name_def)
next
  case (Some c)
  then show ?thesis
    using assms by (simp add: add_credential_to_pool_def)
qed

lemma held_edit_credential [simp]:
  "held (snd (edit_credential_in_pool now n pw days s)) uid = held s uid"
  by (simp add: edit_credential_in_pool_def held_def Let_def split: option.splits)

lemma edit_map_names:
  "(\<exists>c \<in> set (map (\<lambda>c. if username c = n
        then c\<lparr>password := pw, credential_expiry_date := e\<rparr> else c) cs). username c = m)
   \<longleftrightarrow> (\<exists>c \<in> set cs. username c = m)"
  by (induction cs) simp_all

lemma edit_map_status:
  "(\<forall>c \<in> set (map (\<lambda>c. if username c = n
        then c\<lparr>password := pw, credential_expiry_date := e\<rparr> else c) cs).
      username c = m \<longrightarrow> status c = InUse)
   \<longleftrightarrow> (\<forall>c \<in> set cs. username c = m \<longrightarrow> status c = InUse)"
  by (induction cs) simp_all

lemma in_use_name_edit_credential [simp]:
  "in_use_name (snd (edit_credential_in_pool now n pw days s)) m = in_use_name s m"
proof (cases "get_credential s n")
  case None
  then show ?thesis
    by (simp add: edit_credential_in_pool_def)
next
  case (Some c)
  then have creds: "credentials (snd (edit_credential_in_pool now n pw days s)) =
      map (\<lambda>c. if username c = n
            then c\<lparr>password := pw, credential_expiry_date := now + timedelta_days days\<rparr>
            else c) (credentials s)"
    by (simp add: edit_credential_in_pool_def Let_def)
  show ?thesis
    unfolding in_use_name_def creds by (simp only: edit_map_names edit_map_status)
qed

lemma permit_state:
  "fst (snd (permit_bot_use nf ng u d s)) =
     (case get_user s u of
        None \<Rightarrow> s
      | Some _ \<Rightarrow>
          (case get_available_credential nf s d of
             None \<Rightarrow> s
           | Some c \<Rightarrow> grant_user_access ng u d (assign_credential_to_user u c s)))"
  by (simp add: permit_bot_use_def Let_def split: option.splits)

lemma held_free_credential [simp]:
  "held (fst (free_credential v2 u s)) uid = held (snd (free_credential_from_user u s)) uid"
  by (simp add: free_credential_def split: prod.splits)

lemma in_use_name_free_credential [simp]:
  "in_use_name (fst (free_credential v2 u s)) k =
     in_use_name (snd (free_credential_from_user u s)) k"
  by (simp add: free_credential_def split: prod.splits)

lemma held_cleanup [simp]:
  "held (fst (run_cleanup_task_after_delay u s)) uid =
     held (snd (free_credential_from_user u s)) uid"
  by (simp add: run_cleanup_task_after_delay_def split: prod.splits)

lemma in_use_name_cleanup [simp]:
  "in_use_name (fst (run_cleanup_task_after_delay u s)) k =
     in_use_name (snd (free_credential_from_user u s)) k"
  by (simp add: run_cleanup_task_after_delay_def split: prod.splits)

lemma held_cleanup_v2 [simp]:
  "held (fst (run_cleanup_task_after_delay_v2 u s)) uid =
     held (snd (free_credential_from_user u s)) uid"
  by (simp add: run_cleanup_task_after_delay_v2_def split: prod.splits)

lemma in_use_name_cleanup_v2 [simp]:
  "in_use_name (fst (run_cleanup_task_after_delay_v2 u s)) k =
     in_use_name (snd (free_credential_from_user u s)) k"
  by (simp add: run_cleanup_task_after_delay_v2_def split: prod.splits)

lemma held_restrict [simp]: "held (fst (restrict_bot_use u s)) uid = held s uid"
  by (simp add: restrict_bot_use_def split: option.splits)

lemma in_use_name_restrict [simp]: "in_use_name (fst (restrict_bot_use u s)) k = in_use_name s k"
  by (simp add: restrict_bot_use_def split: option.splits)

lemma free_step:
  "(fst (free_credential_from_user u s) = None \<and> quiet s (snd (free_credential_from_user u s))) \<or>
   (\<exists>m. fst (free_credential_from_user u s) = Some m \<and>
        frees u m s (snd (free_credential_from_user u s)))"
proof (cases "fst (free_credential_from_user u s)")
  case None
  then show ?thesis
    by (simp add: free_None quiet_def)
next
  case (Some m)
  have "held s u = Some m"
    using free_Some [OF Some] by simp
  then have "frees u m s (snd (free_credential_from_user u s))"
    using Some by (simp add: frees_def held_free in_use_name_free)
  then show ?thesis
    using Some by simp
qed

lemma permit_step:
  "quiet s (fst (snd (permit_bot_use nf ng u d s))) \<or>
   (\<exists>m. grants u m s (fst (snd (permit_bot_use nf ng u d s))))"
proof (cases "get_user s u")
  case None
  then show ?thesis
    by (simp add: permit_state quiet_def)
next
  case (Some usr)
  show ?thesis
  proof (cases "get_available_credential nf s d")
    case None
    then show ?thesis
      using Some by (simp add: permit_state quiet_def)
  next
    case found: (Some c)
    have c: "c \<in> set (credentials s)" "status c = Available"
      using found_credential_available [OF found] by simp_all
    have ex: "users s u \<noteq> None"
      using Some by (simp add: get_user_def)
    have notin: "\<not> in_use_name s (username c)"
      using c by (auto simp: in_use_name_def)
    have "\<exists>c' \<in> set (credentials s). username c' = username c"
      using c by blast
    then have "grants u (username c) s (fst (snd (permit_bot_use nf ng u d s)))"
      using Some found ex notin
      by (simp add: permit_state grants_def held_assign in_use_name_assign)
    then show ?thesis
      by blast
  qed
qed

lemma step_kinds:
  "(freed_by a s = None \<and> quiet s (step v2 a s)) \<or>
   (\<exists>u m. freed_by a s = Some m \<and> frees u m s (step v2 a s)) \<or>
   (freed_by a s = None \<and> (\<exists>u m. grants u m s (step v2 a s)))"
proof (cases a)
  case (Start uid)
  then show ?thesis by (simp add: quiet_def)
next
  case (AddCredential now n pw days)
  then show ?thesis by (simp add: quiet_def in_use_name_add_credential)
next
  case (EditCredential now n pw days)
  then show ?thesis by (simp add: quiet_def)
next
  case (PermitBotUse nf ng u d)
  then show ?thesis using permit_step [of s nf ng u d] by auto
next
  case (RestrictBotUse u)
  then show ?thesis by (simp add: quiet_def)
next
  case (FreeCredential u)
  have "quiet s s' \<longleftrightarrow> quiet s (fst (free_credential v2 u s))"
    if "s' = snd (free_credential_from_user u s)" for s'
    using that by (simp add: quiet_def)
  moreover have "frees u m s s' \<longleftrightarrow> frees u m s (fst (free_credential v2 u s))"
    if "s' = snd (free_credential_from_user u s)" for s' m
    using that by (simp add: frees_def)
  ultimately show ?thesis
    using FreeCredential free_step [of u s] by auto
next
  case (CleanupTask u)
  have "quiet s s' \<longleftrightarrow> quiet s (step v2 (CleanupTask u) s)"
    if "s' = snd (free_credential_from_user u s)" for s'
    using that by (simp add: quiet_def)
  moreover have "frees u m s s' \<longleftrightarrow> frees u m s (step v2 (CleanupTask u) s)"
    if "s' = snd (free_credential_from_user u s)" for s' m
    using that by (simp add: frees_def)
  ultimately show ?thesis
    using CleanupTask free_step [of u s] by auto
qed

text \<open>Every step keeps the invariant of the pool, and keeps a name in use unless it frees it.\<close>

lemma pool_inv_quiet:
  assumes "pool_inv s" and "quiet s s'"
  shows "pool_inv s'"
  using assms unfolding pool_inv_held quiet_def by metis

lemma pool_inv_frees:
  assumes "pool_inv s" and "frees u m s s'"
  shows "pool_inv s'"
  unfolding pool_inv_held
proof (intro allI impI)
  fix n uid
  assume h: "held s' uid = Some n"
  have upd: "\<And>x. held s' x = (if x = u then None else held s x)"
    and inuse: "\<And>k. in_use_name s' k = (k \<noteq> m \<and> in_use_name s k)"
    and hu: "held s u = Some m"
    using assms(2) by (simp_all add: frees_def)
  have ne: "uid \<noteq> u" and old: "held s uid = Some n"
    using h upd [of uid] by (simp_all split: if_splits)
  have uniq: "\<And>x. held s x = Some n \<Longrightarrow> x = uid" and iu: "in_use_name s n"
    using assms(1) old unfolding pool_inv_held by blast+
  have "n \<noteq> m"
    using uniq hu ne by blast
  then have "in_use_name s' n"
    using iu inuse by simp
  moreover have "\<forall>uid'. held s' uid' = Some n \<longrightarrow> uid' = uid"
    using upd uniq by (metis option.distinct(1))
  ultimately show "(\<forall>uid'. held s' uid' = Some n \<longrightarrow> uid' = uid) \<and> in_use_name s' n"
    by simp
qed

lemma pool_inv_grants:
  assumes "pool_inv s" and "grants u m s s'"
  shows "pool_inv s'"
  unfolding pool_inv_held
proof (intro allI impI)
  fix n uid
  assume h: "held s' uid = Some n"
  have upd: "\<And>x. held s' x = (if x = u then Some m else held s x)"
    and inuse: "\<And>k. in_use_name s' k = (k = m \<or> in_use_name s k)"
    and fresh: "\<not> in_use_name s m"
    using assms(2) by (simp_all add: grants_def)
  have nobody: "\<And>x. held s x \<noteq> Some m"
    using assms(1) fresh unfolding pool_inv_held by blast
  show "(\<forall>uid'. held s' uid' = Some n \<longrightarrow> uid' = uid) \<and> in_use_name s' n"
  proof (cases "uid = u")
    case True
    then have "n = m"
      using h upd [of uid] by simp
    moreover have "\<forall>uid'. held s' uid' = Some m \<longrightarrow> uid' = u"
      using upd nobody by (metis (full_types))
    ultimately show ?thesis
      using True inuse by simp
  next
    case False
    then have old: "held s uid = Some n"
      using h upd [of uid] by simp
    then have uniq: "\<And>x. held s x = Some n \<Longrightarrow> x = uid" and iu: "in_use_name s n"
      using assms(1) unfolding pool_inv_held by blast+
    have "n \<noteq> m"
      using old nobody by blast
    then have "\<forall>uid'. held s' uid' = Some n \<longrightarrow> uid' = uid"
      using upd uniq by (metis option.inject)
    then show ?thesis
      using iu inuse by simp
  qed
qed

lemma pool_inv_step:
  assumes "pool_inv s"
  shows "pool_inv (step v2 a s)"
  using step_kinds [of a s v2] assms
  by (blast intro: pool_inv_quiet pool_inv_frees pool_inv_grants)

lemma pool_inv_run:
  assumes "pool_inv s"
  shows "pool_inv (run v2 ops s)"
  using assms by (induction ops arbitrary: s) (simp_all add: pool_inv_step)

lemma in_use_name_step:
  assumes "in_use_name s n" and "freed_by a s \<noteq> Some n"
  shows "in_use_name (step v2 a s) n"
  using step_kinds [of a s v2] assms
  by (auto simp: quiet_def frees_def grants_def)

lemma in_use_name_run:
  assumes "in_use_name s n" and "never_freed v2 n ops s"
  shows "in_use_name (run v2 ops s) n"
  using assms by (induction ops arbitrary: s) (simp_all add: in_use_name_step)

lemma in_use_name_not_found:
  assumes "in_use_name s n" and "get_available_credential now s d = Some c"
  shows "username c \<noteq> n"
  using assms found_credential_available [OF assms(2)]
  by (auto simp: in_use_name_def)

lemma pool_inv_empty: "pool_inv empty_db"
  by (simp add: pool_inv_held held_def empty_db_def)

lemma assign_grants:
  assumes "c \<in> set (credentials s)" and "status c = Available" and "users s uid \<noteq> None"
  shows "grants uid (username c) s (assign_credential_to_user uid c s)"
proof -
  have "\<not> in_use_name s (username c)"
    using assms(1,2) by (auto simp: in_use_name_def)
  moreover have "\<exists>c' \<in> set (credentials s). username c' = username c"
    using assms(1) by blast
  ultimately show ?thesis
    using assms(3) by (simp add: grants_def held_assign in_use_name_assign)
qed

lemma assign_quiet:
  assumes "c \<in> set (credentials s)" and "users s uid = None"
  shows "quiet s (assign_credential_to_user uid c s)"
proof -
  have "\<exists>c' \<in> set (credentials s). username c' = username c"
    using assms(1) by blast
  then show ?thesis
    using assms(2) by (simp add: quiet_def held_assign in_use_name_assign)
qed

lemma pool_inv_assign:
  assumes "pool_inv s" and "c \<in> set (credentials s)" and "status c = Available"
  shows "pool_inv (assign_credential_to_user uid c s)"
proof (cases "users s uid")
  case None
  then show ?thesis
    using assms by (blast intro: pool_inv_quiet assign_quiet)
next
  case (Some u)
  then have "users s uid \<noteq> None"
    by simp
  then show ?thesis
    using assms by (blast intro: pool_inv_grants assign_grants)
qed

lemma assign_marks_in_use:
  assumes "c \<in> set (credentials s)"
  shows "c\<lparr>status := InUse\<rparr> \<in> set (credentials (assign_credential_to_user uid c s))"
proof -
  have "(if username c = username c then c\<lparr>status := InUse\<rparr> else c)
      \<in> (\<lambda>x. if username x = username c then x\<lparr>status := InUse\<rparr> else x) ` set (credentials s)"
    using assms by (rule imageI)
  then show ?thesis
    by (simp add: assign_credential_to_user_def update_credential_status_def)
qed

lemma pool_inv_holders:
  assumes "pool_inv s"
  shows "(\<forall>u1 u2. u1 \<in> holders s n \<and> u2 \<in> holders s n \<longrightarrow> u1 = u2) \<and>
         (\<forall>c \<in> set (credentials s). username c = n \<and> status c = Available \<longrightarrow> holders s n = {})"
proof -
  have one: "\<And>u. u \<in> holders s n \<Longrightarrow> holders s n = {u} \<and> in_use_name s n"
    using assms by (simp add: pool_inv_def)
  have "u1 = u2" if "u1 \<in> holders s n" "u2 \<in> holders s n" for u1 u2
    using one [OF that(1)] that(2) by simp
  moreover have "holders s n = {}"
    if "c \<in> set (credentials s)" "username c = n" "status c = Available" for c
  proof (rule ccontr)
    assume "holders s n \<noteq> {}"
    then obtain u where "u \<in> holders s n"
      by blast
    then have "in_use_name s n"
      using one by blast
    then have "status c = InUse"
      using that(1,2) by (simp add: in_use_name_def)
    then show False
      using that(3) by simp
  qed
  ultimately show ?thesis
    by blast
qed

text \<open>
  C3. After \<^verbatim>\<open>assign_credential_to_user\<close> on a credential \<open>c\<close> of the pool, \<open>c\<close> has status
  in use, as has every credential of its name (\<^verbatim>\<open>bot_v2.0.py\<close> does the same when the
  user exists). Whatever the handlers do next, as long as none of them frees the name,
  \<^verbatim>\<open>get_available_credential\<close> returns no credential of that name, for any clock and any
  duration. And when the pool was consistent and \<open>c\<close> was available, as it is where
  \<^verbatim>\<open>permit_bot_use\<close> assigns, then in every later state at most one user holds a given
  name, and no user holds the name of an available credential.
\<close>

theorem assign_credential_exclusive:
  assumes "c \<in> set (credentials s)"
  shows
    "c\<lparr>status := InUse\<rparr> \<in> set (credentials (assign_credential_to_user uid c s)) \<and>
     (\<forall>c' \<in> set (credentials (assign_credential_to_user uid c s)).
        username c' = username c \<longrightarrow> status c' = InUse) \<and>
     (users s uid \<noteq> None \<longrightarrow>
        assign_credential_to_user_v2 uid c s = assign_credential_to_user uid c s) \<and>
     (\<forall>v2 ops now d c'.
        never_freed v2 (username c) ops (assign_credential_to_user uid c s) \<longrightarrow>
        get_available_credential now (run v2 ops (assign_credential_to_user uid c s)) d = Some c'
        \<longrightarrow> username c' \<noteq> username c) \<and>
     (pool_inv s \<and> status c = Available \<longrightarrow>
        (\<forall>v2 ops n.
           (\<forall>u1 u2. u1 \<in> holders (run v2 ops (assign_credential_to_user uid c s)) n \<and>
                    u2 \<in> holders (run v2 ops (assign_credential_to_user uid c s)) n
                    \<longrightarrow> u1 = u2) \<and>
           (\<forall>c' \<in> set (credentials (run v2 ops (assign_credential_to_user uid c s))).
              username c' = n \<and> status c' = Available \<longrightarrow>
              holders (run v2 ops (assign_credential_to_user uid c s)) n = {})))"
proof -
  let ?s1 = "assign_credential_to_user uid c s"
  have "\<exists>c' \<in> set (credentials s). username c' = username c"
    using assms by blast
  then have inuse: "in_use_name ?s1 (username c)"
    by (simp add: in_use_name_assign)
  have a1: "c\<lparr>status := InUse\<rparr> \<in> set (credentials ?s1)"
    using assms by (rule assign_marks_in_use)
  have a2: "\<forall>c' \<in> set (credentials ?s1). username c' = username c \<longrightarrow> status c' = InUse"
    using inuse by (simp add: in_use_name_def)
  have a3: "users s uid \<noteq> None \<longrightarrow> assign_credential_to_user_v2 uid c s = ?s1"
    by (simp add: assign_credential_to_user_v2_def split: option.splits)
  have a4: "username c' \<noteq> username c"
    if "never_freed v2 (username c) ops ?s1"
      and "get_available_credential now (run v2 ops ?s1) d = Some c'" for v2 ops now d c'
    using in_use_name_not_found [OF in_use_name_run [OF inuse that(1)] that(2)] .
  have a5: "(\<forall>u1 u2. u1 \<in> holders (run v2 ops ?s1) n \<and> u2 \<in> holders (run v2 ops ?s1) n
               \<longrightarrow> u1 = u2) \<and>
            (\<forall>c' \<in> set (credentials (run v2 ops ?s1)).
               username c' = n \<and> status c' = Available \<longrightarrow> holders (run v2 ops ?s1) n = {})"
    if "pool_inv s" "status c = Available" for v2 ops n
    using pool_inv_holders [OF pool_inv_run [OF pool_inv_assign [OF that(1) assms that(2)]]] .
  show ?thesis
    using a1 a2 a3 a4 a5 by blast
qed

lemma after_assign_eq:
  "after_assign = \<lparr>users = [1 \<mapsto> \<lparr>user_id = 1, is_bot_use = False, plan_expiry_date = None,
       assigned_username = Some ''A'', assigned_password = Some ''pa''\<rparr>],
     credentials = [cred_B, cred_A\<lparr>status := InUse\<rparr>]\<rparr>"
  by (simp add: after_assign_def assign_credential_to_user_def update_user_def
      update_credential_status_def example_defs)

lemma later_eq:
  "run False later_ops after_assign =
     \<lparr>users = [1 \<mapsto> \<lparr>user_id = 1, is_bot_use = False, plan_expiry_date = None,
       assigned_username = Some ''A'', assigned_password = Some ''pa''\<rparr>],
     credentials = [cred_B, \<lparr>username = ''A'', password = ''pz'', status = InUse,
        credential_expiry_date = timedelta_days 30\<rparr>]\<rparr>"
  by (simp add: later_ops_def after_assign_eq restrict_bot_use_def revoke_user_access_def
      update_user_def get_user_def edit_credential_in_pool_def get_credential_def
      free_credential_def free_credential_from_user_def cred_A_def cred_B_def)

theorem assign_credential_exclusive_witness:
  "cred_A \<in> set (credentials pool_AB) \<and> pool_inv pool_AB \<and> status cred_A = Available \<and>
   cred_A\<lparr>status := InUse\<rparr> \<in> set (credentials (assign_credential_to_user 1 cred_A pool_AB)) \<and>
   never_freed False ''A'' later_ops (assign_credential_to_user 1 cred_A pool_AB) \<and>
   get_available_credential 0 (run False later_ops (assign_credential_to_user 1 cred_A pool_AB)) 5
     = Some cred_B \<and>
   username cred_B \<noteq> username cred_A \<and>
   holders (assign_credential_to_user 1 cred_A pool_AB) ''A'' = {1}"
proof -
  have h1: "cred_A \<in> set (credentials pool_AB)"
    by (simp add: pool_AB_def)
  have h2: "pool_inv pool_AB"
    by (simp add: pool_inv_held held_def pool_AB_def new_user_def)
  have h3: "status cred_A = Available"
    by (simp add: cred_A_def)
  note t = assign_credential_exclusive [OF h1, where uid = 1]
  have "never_freed False ''A'' later_ops after_assign"
    by (simp add: later_ops_def after_assign_eq restrict_bot_use_def revoke_user_access_def
        update_user_def get_user_def edit_credential_in_pool_def get_credential_def
        free_credential_from_user_def cred_A_def cred_B_def)
  then have nf: "never_freed False ''A'' later_ops (assign_credential_to_user 1 cred_A pool_AB)"
    by (simp only: after_assign_def)
  have found: "get_available_credential 0
      (run False later_ops (assign_credential_to_user 1 cred_A pool_AB)) 5 = Some cred_B"
    by (simp add: later_eq [unfolded after_assign_def] get_available_credential_def
        cred_B_def timedelta_days_def)
  have un: "username cred_A = ''A''"
    by (simp add: cred_A_def)
  have ne: "username cred_B \<noteq> username cred_A"
    using t nf found un by metis
  have one: "holders (assign_credential_to_user 1 cred_A pool_AB) ''A'' = {1}"
  proof -
    have "1 \<in> holders (assign_credential_to_user 1 cred_A pool_AB) ''A''"
      by (simp add: holders_def after_assign_eq [unfolded after_assign_def])
    moreover have "\<forall>u1 u2. u1 \<in> holders (run False [] (assign_credential_to_user 1 cred_A pool_AB)) ''A''
        \<and> u2 \<in> holders (run False [] (assign_credential_to_user 1 cred_A pool_AB)) ''A''
        \<longrightarrow> u1 = u2"
      using t h2 h3 by blast
    ultimately show ?thesis
      by auto
  qed
  show ?thesis
    using h1 h2 h3 t nf found ne one by simp
qed

section \<open>The scheduled cleanup\<close>



lemma users_update_credential_status [simp]:
  "users (update_credential_status n st s) = users s"
  by (simp add: update_credential_status_def)

lemma others_consistent_update_credential_status [simp]:
  "others_consistent uid (update_credential_status n st s) = others_consistent uid s"
  by (simp add: others_consistent_def)


lemma users_consistent_update_credential_status [simp]:
  "users_consistent (update_credential_status n st s) = users_consistent s"
  by (simp add: users_consistent_def)

lemma names_nonempty_update_user [simp]:
  "names_nonempty (update_user uid f s) = names_nonempty s"
  by (simp add: names_nonempty_def)

lemma names_nonempty_update_credential_status [simp]:
  "names_nonempty (update_credential_status n st s) = names_nonempty s"
proof -
  have "(\<exists>c \<in> A. username c = m) \<longleftrightarrow> m \<in> username ` A" for A :: "credential set" and m
    by auto
  then show ?thesis
    by (simp add: names_nonempty_def usernames_update_credential_status)
qed


lemma names_nonempty_revoke [simp]:
  "names_nonempty (revoke_user_access uid s) = names_nonempty s"
  by (simp add: revoke_user_access_def)

















end
